theory Spec2Isabelle
  imports Complex_Main
begin

section \<open>Parallel tree search: the scheduler of \<open>aide/parallel_agent.py\<close>\<close>

text \<open>
  The scheduler (\<open>ParallelAgent\<close>) drives a pool of remote workers (\<open>ParallelWorker\<close>)
  through one search step: every worker proposes nodes, the pooled nodes are cut into one
  slice per worker, every slice is executed and scored by its worker, and the results are
  appended to the journal. Exceptions are values of type \<open>exn\<close>; mutation is explicit
  state passing.
\<close>

subsection \<open>Exceptions\<close>

text \<open>
  \<open>RayError\<close> is what a method call on an actor raises once \<open>ray.shutdown\<close> has run:
  the shutdown terminates the actors of the pool, and their handles cannot be called
  any more. \<open>Raised m\<close> is an exception of a collaborator, with its message.
\<close>

datatype exn =
    ZeroDivisionError
  | IndexError
  | RayError
  | Raised string

fun str :: "exn \<Rightarrow> string" where
  "str ZeroDivisionError = ''integer division or modulo by zero''"
| "str IndexError = ''list index out of range''"
| "str RayError = ''the actor is not reachable: Ray has been shut down''"
| "str (Raised m) = m"

subsection \<open>Partition of the pending nodes (lines 135--146 of \<open>step\<close>)\<close>

text \<open>\<open>max(1, len(all_nodes) // len(self.workers))\<close>: integer division raises on an empty pool.\<close>

definition nodes_per_executor :: "nat \<Rightarrow> nat \<Rightarrow> exn + nat" where
  "nodes_per_executor n p = (if p = 0 then Inl ZeroDivisionError else Inr (max 1 (n div p)))"

text \<open>
  Python's \<open>xs[start:end]\<close> for non-negative bounds: both bounds are clamped to the length,
  and the slice is empty when \<open>end \<le> start\<close>.
\<close>

definition slice :: "'a list \<Rightarrow> nat \<Rightarrow> nat \<Rightarrow> 'a list" where
  "slice xs start_idx end_idx = take (end_idx - start_idx) (drop start_idx xs)"

text \<open>The slice of worker \<open>i\<close> in a pool of \<open>p\<close> workers (the body of the \<open>enumerate\<close> loop).\<close>

definition worker_nodes :: "'a list \<Rightarrow> nat \<Rightarrow> nat \<Rightarrow> nat \<Rightarrow> 'a list" where
  "worker_nodes all_nodes p npe i =
     (let start_idx = i * npe;
          end_idx = (if i < p - 1 then start_idx + npe else length all_nodes)
      in slice all_nodes start_idx end_idx)"

definition partition_nodes :: "'a list \<Rightarrow> nat \<Rightarrow> exn + 'a list list" where
  "partition_nodes all_nodes p =
     (case nodes_per_executor (length all_nodes) p of
        Inl e \<Rightarrow> Inl e
      | Inr npe \<Rightarrow> Inr (map (worker_nodes all_nodes p npe) [0..<p]))"

text \<open>
  The slice sizes in the words of the spec: \<open>floor(total / pool_size)\<close> for all but the
  last slice, which absorbs the remainder.
\<close>

definition spec_slice_sizes :: "nat \<Rightarrow> nat \<Rightarrow> nat list" where
  "spec_slice_sizes n p = replicate (p - 1) (n div p) @ [n - (p - 1) * (n div p)]"

subsection \<open>Nodes and the journal\<close>

text \<open>
  Modelled from the spec: \<open>Node\<close> and \<open>Journal\<close> of \<open>aide/journal.py\<close>, which is not
  among the sources. A node has a unique id, its code, a back-reference to its parent
  (none for a draft), \<open>is_buggy\<close> and \<open>metric\<close> (unknown until evaluation) and the absorbed
  raw execution artifact. The score is a float in the source; it is only compared.
\<close>

record node =
  node_id :: string
  code :: string
  parent :: "string option"
  is_buggy :: "bool option"
  metric :: "real option"
  exec_result :: "string option"

text \<open>
  Modelled from the spec: the journal is the append-only collection of all nodes in
  arrival order, with a secondary list of draft nodes; \<open>Journal.append\<close> adds a node at
  the end of the main collection, and \<open>len(journal)\<close> is the number of its nodes.
\<close>

record journal =
  nodes :: "node list"
  draft_nodes :: "node list"

definition journal_append :: "node \<Rightarrow> journal \<Rightarrow> journal" where
  "journal_append n j = j\<lparr>nodes := nodes j @ [n]\<rparr>"

text \<open>Modelled from the spec: \<open>Node.absorb_exec_result\<close> stores the raw artifact in the node.\<close>

definition absorb_exec_result :: "node \<Rightarrow> string \<Rightarrow> node" where
  "absorb_exec_result n r = n\<lparr>exec_result := Some r\<rparr>"

subsection \<open>Logging\<close>

text \<open>One constructor per logging call of the source, with the values it formats.\<close>

datatype level = INFO | ERROR

datatype event =
    Generating nat "node option"
  | Generated nat
  | SelectedParent "string option"
  | Executing string string
  | Completed string string "real option"
  | FailedExecuting string string string
  | StartingStep nat
  | UpdatedDataPreview
  | WaitingGeneration nat
  | GeneratedTotal nat nat
  | Distributing nat nat nat
  | Assigned nat nat nat
  | WaitingExecutions nat nat
  | AllCompleted nat
  | StepCompleted nat nat nat "real option"
  | SavedRun nat string
  | FailedSave nat string

type_synonym log = "(level \<times> event) list"

subsection \<open>Configuration\<close>

text \<open>
  The fields of \<open>Config\<close> that the scheduler reads: \<open>cfg.agent.data_preview\<close>,
  \<open>cfg.agent.parallel.num_workers\<close> and \<open>cfg.agent.parallel.nodes_per_worker\<close> (the pool
  size and the nodes per worker: counts, so natural numbers), \<open>cfg.workspace_dir\<close> and
  \<open>cfg.log_dir\<close>.
\<close>

record cfg =
  agent_data_preview :: bool
  parallel_num_workers :: nat
  parallel_nodes_per_worker :: nat
  workspace_dir :: string
  log_dir :: string

subsection \<open>Workers\<close>

text \<open>The remote methods of a worker; \<open>served\<close> records the calls an actor has received.\<close>

datatype request =
    SearchAndGenerate nat
  | ExecuteAndEvaluateNode string
  | GetDataPreview
  | CleanupInterpreter

text \<open>
  A worker is a remote actor: it holds its own copy of what its constructor was given
  (the journal and the data preview), its logger, and the state of the collaborators it
  owns (proposal engine and sandbox session), which is opaque here.
\<close>

record worker =
  actor_id :: string
  w_task_desc :: string
  w_cfg :: cfg
  w_journal :: journal
  w_data_preview :: "string option"
  w_logger :: log
  served :: "request list"
  opaque :: nat

text \<open>
  The collaborators that are not part of the scheduling core, as parameters: the search
  policy and the proposal engine (\<open>Agent.search_policy\<close>, \<open>_draft\<close>, \<open>_debug\<close>, \<open>_improve\<close>), the
  sandbox (\<open>Interpreter.run\<close>, \<open>cleanup_session\<close>), the metric derivation
  (\<open>Agent.parse_exec_result\<close>), persistence (\<open>save_run\<close>), the data preview generator and
  the actor ids the runtime hands out. A collaborator owned by a worker reads the worker
  and returns, with its result, the new opaque state; each may raise.
\<close>

record env =
  search_policy :: "worker \<Rightarrow> (exn + node option) \<times> nat"
  draft :: "worker \<Rightarrow> (exn + node) \<times> nat"
  debug :: "worker \<Rightarrow> node \<Rightarrow> (exn + node) \<times> nat"
  improve :: "worker \<Rightarrow> node \<Rightarrow> (exn + node) \<times> nat"
  interpreter_run :: "worker \<Rightarrow> string \<Rightarrow> (exn + string) \<times> nat"
  parse_exec_result :: "worker \<Rightarrow> node \<Rightarrow> string \<Rightarrow> (exn + node) \<times> nat"
  cleanup_session :: "worker \<Rightarrow> exn option \<times> nat"
  save_run :: "cfg \<Rightarrow> journal \<Rightarrow> exn option"
  dp_generate :: "string \<Rightarrow> exn + string"
  new_actor_id :: "nat \<Rightarrow> string"

definition w_log :: "level \<Rightarrow> event \<Rightarrow> worker \<Rightarrow> worker" where
  "w_log l ev w = w\<lparr>w_logger := w_logger w @ [(l, ev)]\<rparr>"

text \<open>A call of a collaborator from inside a worker.\<close>

definition call :: "(worker \<Rightarrow> 'a \<times> nat) \<Rightarrow> worker \<Rightarrow> 'a \<times> worker" where
  "call m w = (case m w of (r, s) \<Rightarrow> (r, w\<lparr>opaque := s\<rparr>))"

text \<open>Python truthiness of \<open>node.is_buggy\<close>, which is \<open>None\<close> before evaluation.\<close>

definition buggy :: "node \<Rightarrow> bool" where
  "buggy n = (is_buggy n = Some True)"

text \<open>The body of the loop of \<open>generate_nodes\<close>: the strategy follows from the parent.\<close>

definition generate_one :: "env \<Rightarrow> node option \<Rightarrow> worker \<Rightarrow> (exn + node) \<times> worker" where
  "generate_one E parent_node w =
     (case parent_node of
        None \<Rightarrow> call (draft E) w
      | Some pn \<Rightarrow>
          if buggy pn then call (\<lambda>w. debug E w pn) w else call (\<lambda>w. improve E w pn) w)"

fun generate_loop ::
  "env \<Rightarrow> node option \<Rightarrow> nat \<Rightarrow> node list \<Rightarrow> worker \<Rightarrow> (exn + node list) \<times> worker" where
  "generate_loop E parent_node 0 ns w = (Inr ns, w)"
| "generate_loop E parent_node (Suc k) ns w =
     (case generate_one E parent_node w of
        (Inl e, w') \<Rightarrow> (Inl e, w')
      | (Inr n, w') \<Rightarrow> generate_loop E parent_node k (ns @ [n]) w')"

definition generate_nodes ::
  "env \<Rightarrow> node option \<Rightarrow> nat \<Rightarrow> worker \<Rightarrow> (exn + node list) \<times> worker" where
  "generate_nodes E parent_node num_nodes w =
     (case generate_loop E parent_node num_nodes [] (w_log INFO (Generating num_nodes parent_node) w) of
        (Inl e, w') \<Rightarrow> (Inl e, w')
      | (Inr ns, w') \<Rightarrow> (Inr ns, w_log INFO (Generated (length ns)) w'))"

definition search_and_generate :: "env \<Rightarrow> nat \<Rightarrow> worker \<Rightarrow> (exn + node list) \<times> worker" where
  "search_and_generate E num_nodes w =
     (case call (search_policy E) w of
        (Inl e, w') \<Rightarrow> (Inl e, w')
      | (Inr parent_node, w') \<Rightarrow>
          generate_nodes E parent_node num_nodes
            (w_log INFO (SelectedParent (map_option node_id parent_node)) w'))"

text \<open>
  \<open>execute_and_evaluate_node\<close>: the handler logs the failure with the worker's and the
  node's identity and re-raises it.
\<close>

definition failed_executing :: "worker \<Rightarrow> node \<Rightarrow> exn \<Rightarrow> worker \<Rightarrow> (exn + node) \<times> worker" where
  "failed_executing w n e w' =
     (Inl e, w_log ERROR (FailedExecuting (actor_id w) (node_id n) (str e)) w')"

definition execute_and_evaluate_node :: "env \<Rightarrow> node \<Rightarrow> worker \<Rightarrow> (exn + node) \<times> worker" where
  "execute_and_evaluate_node E n w =
     (case call (\<lambda>w. interpreter_run E w (code n))
             (w_log INFO (Executing (actor_id w) (node_id n)) w) of
        (Inl e, w1) \<Rightarrow> failed_executing w n e w1
      | (Inr result, w1) \<Rightarrow>
          (case call (\<lambda>w. parse_exec_result E w (absorb_exec_result n result) result) w1 of
             (Inl e, w2) \<Rightarrow> failed_executing w n e w2
           | (Inr n', w2) \<Rightarrow>
               (Inr n', w_log INFO (Completed (actor_id w) (node_id n') (metric n')) w2)))"

text \<open>
  What it is for \<open>n'\<close> to be the evaluation of \<open>n\<close>: in some state of a worker the sandbox
  ran the code of \<open>n\<close> and returned an artifact, and the metric derivation, given \<open>n\<close>
  with the artifact absorbed, returned \<open>n'\<close>. A future of the evaluation of \<open>n\<close> either
  failed or holds such a node.
\<close>

definition evaluation :: "env \<Rightarrow> node \<Rightarrow> node \<Rightarrow> bool" where
  "evaluation E n n' =
     (\<exists>w r s s'. interpreter_run E w (code n) = (Inr r, s) \<and>
        parse_exec_result E (w\<lparr>opaque := s\<rparr>) (absorb_exec_result n r) r = (Inr n', s'))"

definition future_of :: "env \<Rightarrow> node \<Rightarrow> exn + node \<Rightarrow> bool" where
  "future_of E n r = (case r of Inl e \<Rightarrow> True | Inr n' \<Rightarrow> evaluation E n n')"

definition get_data_preview :: "worker \<Rightarrow> string option \<times> worker" where
  "get_data_preview w = (w_data_preview w, w)"


text \<open>
  A remote call that reaches its actor: the actor records the request, then runs the
  method. The scheduler can only make such a call while the runtime is up; each of its
  call sites below raises \<open>RayError\<close> otherwise.
\<close>

definition remote :: "request \<Rightarrow> (worker \<Rightarrow> 'a \<times> worker) \<Rightarrow> worker \<Rightarrow> 'a \<times> worker" where
  "remote rq m w = m (w\<lparr>served := served w @ [rq]\<rparr>)"

text \<open>\<open>ray.get\<close> on a list of futures: all the values, or the first failure in list order.\<close>

fun ray_get :: "(exn + 'a) list \<Rightarrow> exn + 'a list" where
  "ray_get [] = Inr []"
| "ray_get (Inl e # rs) = Inl e"
| "ray_get (Inr v # rs) = (case ray_get rs of Inl e \<Rightarrow> Inl e | Inr vs \<Rightarrow> Inr (v # vs))"

subsection \<open>The scheduler\<close>

text \<open>
  \<open>data_preview\<close> is \<open>None\<close> while the object has no such attribute (what \<open>hasattr\<close> tests),
  and \<open>Some v\<close> once it is assigned, where \<open>v\<close> may itself be Python's \<open>None\<close>.
  \<open>ray_initialized\<close> is set by \<open>ray.init\<close> and cleared by \<open>ray.shutdown\<close>, which also
  terminates the workers: from then on a call of a worker's method raises in the
  scheduler and reaches no worker.
\<close>

record agent =
  task_desc :: string
  config :: cfg
  journal :: journal
  data_preview :: "string option option"
  num_workers :: nat
  nodes_per_worker :: nat
  logger :: log
  workers :: "worker list"
  ray_initialized :: bool

definition new_worker ::
  "env \<Rightarrow> string \<Rightarrow> cfg \<Rightarrow> journal \<Rightarrow> string option \<Rightarrow> nat \<Rightarrow> worker" where
  "new_worker E t c j dp i =
     \<lparr>actor_id = new_actor_id E i, w_task_desc = t, w_cfg = c, w_journal = j,
      w_data_preview = dp, w_logger = [], served = [], opaque = 0\<rparr>"

text \<open>\<open>ParallelAgent.__init__\<close>: both branches assign \<open>self.data_preview\<close>.\<close>

definition ParallelAgent_init :: "env \<Rightarrow> string \<Rightarrow> cfg \<Rightarrow> journal \<Rightarrow> exn + agent" where
  "ParallelAgent_init E t c j =
     (case (if agent_data_preview c
            then (case dp_generate E (workspace_dir c) of Inl e \<Rightarrow> Inl e | Inr v \<Rightarrow> Inr (Some v))
            else Inr None) of
        Inl e \<Rightarrow> Inl e
      | Inr dp \<Rightarrow>
          Inr \<lparr>task_desc = t, config = c, journal = j, data_preview = Some dp,
               num_workers = parallel_num_workers c,
               nodes_per_worker = parallel_nodes_per_worker c,
               logger = [],
               workers = map (new_worker E t c j dp) [0..<parallel_num_workers c],
               ray_initialized = True\<rparr>)"

definition a_log :: "level \<Rightarrow> event \<Rightarrow> agent \<Rightarrow> agent" where
  "a_log l ev a = a\<lparr>logger := logger a @ [(l, ev)]\<rparr>"

text \<open>
  \<open>update_data_preview\<close>: the fetch from \<open>self.workers[0]\<close> is guarded by
  \<open>not hasattr(self, 'data_preview')\<close>.
\<close>

definition update_data_preview :: "agent \<Rightarrow> exn option \<times> agent" where
  "update_data_preview a =
     (case data_preview a of
        Some v \<Rightarrow> (None, a)
      | None \<Rightarrow>
          (case workers a of
             [] \<Rightarrow> (Some IndexError, a)
           | w # ws \<Rightarrow>
               if \<not> ray_initialized a then (Some RayError, a)
               else (case remote GetDataPreview get_data_preview w of
                       (dp, w') \<Rightarrow>
                         (None, a\<lparr>data_preview := Some dp, workers := w' # ws\<rparr>))))"

text \<open>Lines 109--114 of \<open>step\<close>.\<close>

definition begin_step :: "agent \<Rightarrow> exn option \<times> agent" where
  "begin_step a =
     (let a1 = a_log INFO (StartingStep (length (nodes (journal a)))) a in
      if nodes (journal a1) = [] then
        (case update_data_preview a1 of
           (Some e, a2) \<Rightarrow> (Some e, a2)
         | (None, a2) \<Rightarrow> (None, a_log INFO UpdatedDataPreview a2))
      else (None, a1))"

text \<open>
  Lines 116--132: every worker searches and generates; \<open>ray.get\<close> waits for all of them;
  the answers are flattened in pool order. After a shutdown the first call, if the pool
  has a worker, raises before anything is logged.
\<close>

definition propose :: "env \<Rightarrow> nat \<Rightarrow> agent \<Rightarrow> (exn + node list) \<times> agent" where
  "propose E step_num a =
     (if \<not> ray_initialized a \<and> workers a \<noteq> [] then (Inl RayError, a)
      else
       (let rs = map (remote (SearchAndGenerate (nodes_per_worker a))
                        (search_and_generate E (nodes_per_worker a))) (workers a);
            a1 = a_log INFO (WaitingGeneration step_num) (a\<lparr>workers := map snd rs\<rparr>)
        in case ray_get (map fst rs) of
             Inl e \<Rightarrow> (Inl e, a1)
           | Inr generated_nodes \<Rightarrow>
               (Inr (concat generated_nodes),
                a_log INFO (GeneratedTotal step_num (sum_list (map length generated_nodes)))
                  a1)))"

text \<open>A worker runs the tasks of its slice one after the other; a failed task fails alone.\<close>

fun evaluate_slice :: "env \<Rightarrow> node list \<Rightarrow> worker \<Rightarrow> (exn + node) list \<times> worker" where
  "evaluate_slice E [] w = ([], w)"
| "evaluate_slice E (n # ns) w =
     (case remote (ExecuteAndEvaluateNode (node_id n)) (execute_and_evaluate_node E n) w of
        (r, w1) \<Rightarrow> (case evaluate_slice E ns w1 of (rs, w2) \<Rightarrow> (r # rs, w2)))"

text \<open>Slice \<open>i\<close> goes to worker \<open>i\<close>: the futures of each worker, and the worker afterwards.\<close>

definition run_slices ::
  "env \<Rightarrow> node list list \<Rightarrow> worker list \<Rightarrow> ((exn + node) list \<times> worker) list" where
  "run_slices E slices ws = map2 (evaluate_slice E) slices ws"

text \<open>
  Lines 134--151: the pending nodes are partitioned, every slice is dispatched, and
  \<open>ray.get\<close> waits for every evaluation. After a shutdown the call for the first node
  raises: by then the assignments up to the first slice that has a node are logged.
\<close>

definition evaluate :: "env \<Rightarrow> nat \<Rightarrow> node list \<Rightarrow> agent \<Rightarrow> (exn + node list) \<times> agent" where
  "evaluate E step_num all_nodes a =
     (case partition_nodes all_nodes (length (workers a)) of
        Inl e \<Rightarrow> (Inl e, a)
      | Inr slices \<Rightarrow>
          (let a1 = a_log INFO
                      (Distributing step_num (length all_nodes) (length (workers a))) a
           in if \<not> ray_initialized a \<and> concat slices \<noteq> [] then
                (Inl RayError,
                 a1\<lparr>logger := logger a1 @
                       map (\<lambda>(i, sl). (INFO, Assigned step_num i (length sl)))
                         (take (Suc (length (takeWhile (\<lambda>sl. sl = []) slices)))
                            (enumerate 0 slices))\<rparr>)
              else
               (let rs = run_slices E slices (workers a1);
                    exec_futures = concat (map fst rs);
                    a2 = a1\<lparr>logger := logger a1 @
                              map (\<lambda>(i, sl). (INFO, Assigned step_num i (length sl)))
                                (enumerate 0 slices),
                            workers := map snd rs\<rparr>;
                    a3 = a_log INFO (WaitingExecutions step_num (length exec_futures)) a2
                in case ray_get exec_futures of
                     Inl e \<Rightarrow> (Inl e, a3)
                   | Inr evaluated_nodes \<Rightarrow>
                       (Inr evaluated_nodes, a_log INFO (AllCompleted step_num) a3))))"

text \<open>Lines 153--176: the journal update and the statistics of the step.\<close>

record stats =
  successful_nodes :: nat
  buggy_nodes :: nat
  best_metric :: "real option"

definition aggregate_node :: "node \<Rightarrow> journal \<Rightarrow> journal" where
  "aggregate_node n j =
     journal_append n (if parent n = None then j\<lparr>draft_nodes := draft_nodes j @ [n]\<rparr> else j)"

text \<open>\<open>best_metric\<close> starts at \<open>float('-inf')\<close>, which is \<open>None\<close> here.\<close>

definition track :: "node \<Rightarrow> stats \<Rightarrow> stats" where
  "track n s =
     (if buggy n then s\<lparr>buggy_nodes := buggy_nodes s + 1\<rparr>
      else (let s1 = s\<lparr>successful_nodes := successful_nodes s + 1\<rparr> in
            case metric n of
              None \<Rightarrow> s1
            | Some v \<Rightarrow>
                (case best_metric s1 of
                   None \<Rightarrow> s1\<lparr>best_metric := Some v\<rparr>
                 | Some b \<Rightarrow> if v > b then s1\<lparr>best_metric := Some v\<rparr> else s1)))"

fun aggregate_loop :: "node list \<Rightarrow> journal \<Rightarrow> stats \<Rightarrow> journal \<times> stats" where
  "aggregate_loop [] j s = (j, s)"
| "aggregate_loop (n # ns) j s = aggregate_loop ns (aggregate_node n j) (track n s)"

definition aggregate :: "nat \<Rightarrow> node list \<Rightarrow> agent \<Rightarrow> agent" where
  "aggregate step_num evaluated_nodes a =
     (case aggregate_loop evaluated_nodes (journal a)
             \<lparr>successful_nodes = 0, buggy_nodes = 0, best_metric = None\<rparr> of
        (j, s) \<Rightarrow>
          a_log INFO
            (StepCompleted step_num (successful_nodes s) (buggy_nodes s) (best_metric s))
            (a\<lparr>journal := j\<rparr>))"

text \<open>Lines 178--184: a failure of \<open>save_run\<close> is caught and logged.\<close>

definition save :: "env \<Rightarrow> nat \<Rightarrow> agent \<Rightarrow> agent" where
  "save E step_num a =
     (case save_run E (config a) (journal a) of
        None \<Rightarrow> a_log INFO (SavedRun step_num (log_dir (config a))) a
      | Some e \<Rightarrow> a_log ERROR (FailedSave step_num (str e)) a)"

text \<open>\<open>ParallelAgent.step\<close>: the exception it raises, if any, and the scheduler afterwards.\<close>

definition step :: "env \<Rightarrow> agent \<Rightarrow> exn option \<times> agent" where
  "step E a =
     (let step_num = length (nodes (journal a)) in
      case begin_step a of
        (Some e, a1) \<Rightarrow> (Some e, a1)
      | (None, a1) \<Rightarrow>
          (case propose E step_num a1 of
             (Inl e, a2) \<Rightarrow> (Some e, a2)
           | (Inr all_nodes, a2) \<Rightarrow>
               (case evaluate E step_num all_nodes a2 of
                  (Inl e, a3) \<Rightarrow> (Some e, a3)
                | (Inr evaluated_nodes, a3) \<Rightarrow>
                    (None, save E step_num (aggregate step_num evaluated_nodes a3)))))"



subsection \<open>A concrete pool for the worked examples\<close>

text \<open>
  Collaborators that always succeed: every worker drafts (no parent), a proposal gets a
  fresh id from the worker's id and its opaque counter, the sandbox returns \<open>ok\<close> and
  the metric derivation scores every node 1. The variants differ in one collaborator:
  a sandbox that crashes, a metric derivation that raises, and a checkpoint that cannot
  be written.
\<close>

definition sample_node :: "string \<Rightarrow> string option \<Rightarrow> node" where
  "sample_node i p =
     \<lparr>node_id = i, code = ''print(1)'', parent = p, is_buggy = None, metric = None,
      exec_result = None\<rparr>"

definition fresh_id :: "worker \<Rightarrow> string" where
  "fresh_id w = actor_id w @ ''-'' @ replicate (opaque w) CHR ''n''"

definition sample_env :: env where
  "sample_env =
     \<lparr>search_policy = (\<lambda>w. (Inr None, opaque w)),
      draft = (\<lambda>w. (Inr (sample_node (fresh_id w) None), Suc (opaque w))),
      debug = (\<lambda>w pn. (Inr (sample_node (fresh_id w) (Some (node_id pn))), Suc (opaque w))),
      improve = (\<lambda>w pn. (Inr (sample_node (fresh_id w) (Some (node_id pn))), Suc (opaque w))),
      interpreter_run = (\<lambda>w c. (Inr ''ok'', opaque w)),
      parse_exec_result = (\<lambda>w n r. (Inr (n\<lparr>is_buggy := Some False, metric := Some 1\<rparr>), opaque w)),
      cleanup_session = (\<lambda>w. (None, opaque w)),
      save_run = (\<lambda>c j. None),
      dp_generate = (\<lambda>d. Inr ''preview''),
      new_actor_id = (\<lambda>i. replicate (Suc i) CHR ''w'')\<rparr>"

definition crashing_env :: env where
  "crashing_env =
     sample_env\<lparr>interpreter_run := (\<lambda>w c. (Inl (Raised ''sandbox crashed''), opaque w))\<rparr>"

definition unscored_env :: env where
  "unscored_env =
     sample_env\<lparr>parse_exec_result := (\<lambda>w n r. (Inl (Raised ''no metric''), opaque w))\<rparr>"

definition unsaved_env :: env where
  "unsaved_env = sample_env\<lparr>save_run := (\<lambda>c j. Some (Raised ''disk full''))\<rparr>"

definition sample_cfg :: cfg where
  "sample_cfg =
     \<lparr>agent_data_preview = False, parallel_num_workers = 2, parallel_nodes_per_worker = 1,
      workspace_dir = ''ws'', log_dir = ''logs''\<rparr>"

definition empty_journal :: journal where
  "empty_journal = \<lparr>nodes = [], draft_nodes = []\<rparr>"

definition sample_agent :: agent where
  "sample_agent = projr (ParallelAgent_init sample_env ''task'' sample_cfg empty_journal)"

definition sample_worker :: worker where
  "sample_worker = new_worker sample_env ''task'' sample_cfg empty_journal None 0"

text \<open>Ten pending nodes, named \<open>a\<close> to \<open>j\<close>, and a pool of three workers.\<close>

definition ten_nodes :: "node list" where
  "ten_nodes = map (\<lambda>c. sample_node [c] None) ''abcdefghij''"

definition three_workers :: "worker list" where
  "three_workers = map (new_worker sample_env ''task'' sample_cfg empty_journal None) [0, 1, 2]"

definition scored :: "node \<Rightarrow> node" where
  "scored n = n\<lparr>is_buggy := Some False, metric := Some 1, exec_result := Some ''ok''\<rparr>"

subsection \<open>Facts about the partition\<close>

lemma worker_nodes_inner:
  "i < p - 1 \<Longrightarrow> worker_nodes xs p npe i = take npe (drop (i * npe) xs)"
  by (simp add: worker_nodes_def slice_def)

lemma worker_nodes_last:
  "\<not> i < p - 1 \<Longrightarrow> worker_nodes xs p npe i = drop (i * npe) xs"
  by (simp add: worker_nodes_def slice_def)

lemma concat_inner_slices:
  "concat (map (\<lambda>i. take npe (drop (i * npe) xs)) [0..<m]) = take (m * npe) xs"
proof (induction m)
  case 0
  show ?case by simp
next
  case (Suc m)
  have "take (m * npe) xs @ take npe (drop (m * npe) xs) = take (m * npe + npe) xs"
    by (simp add: take_add)
  with Suc show ?case by (simp add: add.commute)
qed

lemma map_worker_nodes_Suc:
  "map (worker_nodes xs (Suc m) npe) [0..<Suc m] =
     map (\<lambda>i. take npe (drop (i * npe) xs)) [0..<m] @ [drop (m * npe) xs]"
  by (simp add: worker_nodes_inner worker_nodes_last)

lemma concat_worker_nodes:
  assumes "0 < p"
  shows "concat (map (worker_nodes xs p npe) [0..<p]) = xs"
proof -
  from assms obtain m where p: "p = Suc m" by (cases p) auto
  show ?thesis
    unfolding p map_worker_nodes_Suc by (simp add: concat_inner_slices)
qed

lemma partition_nodes_Inr:
  "0 < p \<Longrightarrow>
   partition_nodes xs p = Inr (map (worker_nodes xs p (max 1 (length xs div p))) [0..<p])"
  by (simp add: partition_nodes_def nodes_per_executor_def)

lemma partition_nodes_empty_pool: "partition_nodes xs 0 = Inl ZeroDivisionError"
  by (simp add: partition_nodes_def nodes_per_executor_def)

lemma length_worker_nodes_Suc:
  "map length (map (worker_nodes xs (Suc m) npe) [0..<Suc m]) =
     map (\<lambda>i. min npe (length xs - i * npe)) [0..<m] @ [length xs - m * npe]"
  by (simp add: worker_nodes_inner worker_nodes_last min.commute)

lemma inner_sizes_full:
  assumes "Suc m \<le> length xs"
  shows "map (\<lambda>i. min (length xs div Suc m) (length xs - i * (length xs div Suc m))) [0..<m] =
         replicate m (length xs div Suc m)"
proof (rule nth_equalityI)
  show "length (map (\<lambda>i. min (length xs div Suc m) (length xs - i * (length xs div Suc m))) [0..<m]) =
        length (replicate m (length xs div Suc m))" by simp
next
  fix i
  assume "i < length (map (\<lambda>i. min (length xs div Suc m) (length xs - i * (length xs div Suc m))) [0..<m])"
  then have i: "i < m" by simp
  let ?q = "length xs div Suc m"
  have "Suc i * ?q \<le> Suc m * ?q" using i by (intro mult_le_mono1) simp
  also have "\<dots> \<le> length xs" by (rule times_div_less_eq_dividend)
  finally have "?q \<le> length xs - i * ?q" by simp
  then show "map (\<lambda>i. min ?q (length xs - i * ?q)) [0..<m] ! i = replicate m ?q ! i"
    using i by simp
qed

lemma inner_sizes_short:
  assumes "length xs < Suc m"
  shows "map (\<lambda>i. min 1 (length xs - i * 1)) [0..<m] @ [length xs - m * 1] =
         replicate (length xs) 1 @ replicate (Suc m - length xs) 0"
proof (rule nth_equalityI)
  show "length (map (\<lambda>i. min 1 (length xs - i * 1)) [0..<m] @ [length xs - m * 1]) =
        length (replicate (length xs) (1::nat) @ replicate (Suc m - length xs) 0)"
    using assms by simp
next
  fix i
  assume "i < length (map (\<lambda>i. min 1 (length xs - i * 1)) [0..<m] @ [length xs - m * 1])"
  then have "i < Suc m" by simp
  then show "(map (\<lambda>i. min 1 (length xs - i * 1)) [0..<m] @ [length xs - m * 1]) ! i =
        (replicate (length xs) 1 @ replicate (Suc m - length xs) 0) ! i"
    using assms by (auto simp: nth_append less_Suc_eq)
qed

lemma partition_slice_lengths:
  assumes "0 < p"
  shows "map length (map (worker_nodes xs p (max 1 (length xs div p))) [0..<p]) =
           (if p \<le> length xs then spec_slice_sizes (length xs) p
            else replicate (length xs) 1 @ replicate (p - length xs) 0)"
proof -
  from assms obtain m where p: "p = Suc m" by (cases p) auto
  let ?npe = "max 1 (length xs div p)"
  show ?thesis
  proof (cases "p \<le> length xs")
    case True
    then have "1 \<le> length xs div p" using assms by (simp add: div_greater_zero_iff Suc_le_eq)
    then have npe: "?npe = length xs div Suc m" by (simp add: p max_def)
    show ?thesis
      using True inner_sizes_full [of m xs]
      unfolding npe unfolding p length_worker_nodes_Suc
      by (simp add: spec_slice_sizes_def)
  next
    case False
    then have npe: "?npe = 1" by (simp add: p)
    show ?thesis
      using False inner_sizes_short [of xs m]
      unfolding npe unfolding p length_worker_nodes_Suc
      by simp
  qed
qed

lemma partition_2_3: "partition_nodes [10::nat, 11] 3 = Inr [[10], [11], []]"
  by code_simp

lemma partition_10_3:
  "partition_nodes [10::nat, 11, 12, 13, 14, 15, 16, 17, 18, 19] 3 =
     Inr [[10, 11, 12], [13, 14, 15], [16, 17, 18, 19]]"
  by code_simp

lemma partition_11_3:
  "partition_nodes [10::nat, 11, 12, 13, 14, 15, 16, 17, 18, 19, 20] 3 =
     Inr [[10, 11, 12], [13, 14, 15], [16, 17, 18, 19, 20]]"
  by code_simp

lemma spec_slice_sizes_2_3: "spec_slice_sizes 2 3 = [0, 0, 2]"
  by code_simp

lemma spec_slice_sizes_10_3: "spec_slice_sizes 10 3 = [3, 3, 4]"
  by code_simp

lemma run_slices_nth:
  assumes "length ss = length ws"
  shows "run_slices E ss ws = map (\<lambda>i. evaluate_slice E (ss ! i) (ws ! i)) [0..<length ws]"
  using assms by (auto simp: run_slices_def intro!: nth_equalityI)

lemma partition_ten_nodes:
  "map (map node_id) (projr (partition_nodes ten_nodes 3)) =
     [[''a'', ''b'', ''c''], [''d'', ''e'', ''f''], [''g'', ''h'', ''i'', ''j'']]"
  by code_simp

lemma run_ten_nodes:
  "map (\<lambda>(rs, w). (actor_id w, map (map_sum str node_id) rs))
     (run_slices sample_env (projr (partition_nodes ten_nodes 3)) three_workers) =
     [(''w'', [Inr ''a'', Inr ''b'', Inr ''c'']),
      (''ww'', [Inr ''d'', Inr ''e'', Inr ''f'']),
      (''www'', [Inr ''g'', Inr ''h'', Inr ''i'', Inr ''j''])]"
  by code_simp

lemma length_ten_nodes: "length ten_nodes = 10"
  by code_simp

lemma spec_slice_sizes_bounds:
  assumes "0 < p" "n \<in> set (spec_slice_sizes N p)"
  shows "N div p \<le> n \<and> n \<le> N div p + N mod p"
proof -
  from assms(1) obtain m where p: "p = Suc m" by (cases p) auto
  have "Suc m * (N div Suc m) + N mod Suc m = N" by (rule mult_div_mod_eq)
  then have "N - m * (N div Suc m) = N div Suc m + N mod Suc m" by simp
  with assms(2) show ?thesis by (auto simp: spec_slice_sizes_def p)
qed


section \<open>The partition step\<close>

text \<open>
  C1 (as amended). For a pool of \<open>p > 0\<close> workers the partition returns exactly \<open>p\<close>
  slices that are contiguous pieces of the pending sequence, in order (their
  concatenation is the sequence), and slice \<open>i\<close> is the one worker \<open>i\<close> evaluates. When
  there are at least as many pending nodes as workers, every slice but the last has
  \<open>floor(N / p)\<close> nodes and the last takes what remains (\<open>[3, 3, 4]\<close> for ten nodes and
  three workers). When there are fewer nodes than workers, the guard \<open>max(1, ...)\<close> makes
  the slice size one: the first \<open>N\<close> slices hold one node each and the others are empty.
\<close>

theorem partition_sizes:
  assumes "0 < p"
  shows "\<exists>ss. partition_nodes xs p = Inr ss \<and> length ss = p \<and> concat ss = xs \<and>
           map length ss =
             (if p \<le> length xs then spec_slice_sizes (length xs) p
              else replicate (length xs) 1 @ replicate (p - length xs) 0) \<and>
           (\<forall>ws. length ws = p \<longrightarrow>
              run_slices E ss ws = map (\<lambda>i. evaluate_slice E (ss ! i) (ws ! i)) [0..<p])"
proof -
  let ?ss = "map (worker_nodes xs p (max 1 (length xs div p))) [0..<p]"
  have "partition_nodes xs p = Inr ?ss" using assms by (rule partition_nodes_Inr)
  moreover have "length ?ss = p" by simp
  moreover have "concat ?ss = xs" using assms by (rule concat_worker_nodes)
  moreover have "map length ?ss =
             (if p \<le> length xs then spec_slice_sizes (length xs) p
              else replicate (length xs) 1 @ replicate (p - length xs) 0)"
    using assms by (rule partition_slice_lengths)
  moreover have "\<forall>ws. length ws = p \<longrightarrow>
      run_slices E ?ss ws = map (\<lambda>i. evaluate_slice E (?ss ! i) (ws ! i)) [0..<p]"
    using run_slices_nth [of ?ss _ E] by auto
  ultimately show ?thesis by blast
qed

text \<open>
  Witness for C1: ten nodes and three workers, where the slices are \<open>abc\<close>, \<open>def\<close> and
  \<open>ghij\<close>, evaluated by the first, second and third worker.
\<close>

theorem partition_sizes_witness:
  "(0::nat) < 3 \<and>
   map (map node_id) (projr (partition_nodes ten_nodes 3)) =
     [[''a'', ''b'', ''c''], [''d'', ''e'', ''f''], [''g'', ''h'', ''i'', ''j'']] \<and>
   map length (projr (partition_nodes ten_nodes 3)) = [3, 3, 4] \<and>
   concat (projr (partition_nodes ten_nodes 3)) = ten_nodes \<and>
   map (\<lambda>(rs, w). (actor_id w, map (map_sum str node_id) rs))
     (run_slices sample_env (projr (partition_nodes ten_nodes 3)) three_workers) =
     [(''w'', [Inr ''a'', Inr ''b'', Inr ''c'']),
      (''ww'', [Inr ''d'', Inr ''e'', Inr ''f'']),
      (''www'', [Inr ''g'', Inr ''h'', Inr ''i'', Inr ''j''])]"
proof -
  have "\<exists>ss. partition_nodes ten_nodes 3 = Inr ss \<and> length ss = 3 \<and> concat ss = ten_nodes \<and>
          map length ss = spec_slice_sizes 10 3"
    using partition_sizes [of 3 ten_nodes sample_env]
    unfolding length_ten_nodes by auto
  then have "concat (projr (partition_nodes ten_nodes 3)) = ten_nodes"
    and "map length (projr (partition_nodes ten_nodes 3)) = [3, 3, 4]"
    by (auto simp: spec_slice_sizes_10_3)
  then show ?thesis using partition_ten_nodes run_ten_nodes by simp
qed

text \<open>
  Counterexample for C1 as stated, at two pending nodes and three workers: the slices
  have sizes \<open>[1, 1, 0]\<close>, where \<open>floor(2 / 3) = 0\<close> for all but the last would give
  \<open>[0, 0, 2]\<close>.
\<close>

theorem partition_floor_counterexample:
  "map length (projr (partition_nodes [10::nat, 11] 3)) = [1, 1, 0] \<and>
   spec_slice_sizes 2 3 = [0, 0, 2] \<and>
   map length (projr (partition_nodes [10::nat, 11] 3)) \<noteq> spec_slice_sizes 2 3"
  by (simp add: partition_2_3 spec_slice_sizes_2_3)

text \<open>
  C2. For a pool of \<open>p > 0\<close> workers the partition returns \<open>p\<close> slices whose
  concatenation, in partition order, is the pending sequence itself: no node is lost and
  none is duplicated.
\<close>

theorem partition_concat:
  assumes "0 < p"
  shows "\<exists>ss. partition_nodes xs p = Inr ss \<and> length ss = p \<and> concat ss = xs"
  using assms by (simp add: partition_nodes_Inr concat_worker_nodes)

text \<open>Witness for C2: ten nodes and three workers.\<close>

theorem partition_concat_witness:
  "(0::nat) < 3 \<and>
   concat (projr (partition_nodes [10::nat, 11, 12, 13, 14, 15, 16, 17, 18, 19] 3)) =
     [10, 11, 12, 13, 14, 15, 16, 17, 18, 19] \<and>
   length (projr (partition_nodes [10::nat, 11, 12, 13, 14, 15, 16, 17, 18, 19] 3)) = 3"
  using partition_concat [of 3 "[10::nat, 11, 12, 13, 14, 15, 16, 17, 18, 19]"]
  by (simp add: partition_10_3)

text \<open>
  C3 (as amended). For a pool of \<open>p > 0\<close> workers and \<open>N\<close> pending nodes, the sizes of
  any two slices differ by at most \<open>N mod p\<close> when \<open>N \<ge> p\<close>, where the last slice has
  exactly \<open>N mod p\<close> nodes more than the first, and by at most one when \<open>N < p\<close>.
\<close>

theorem partition_sizes_differ:
  assumes "0 < p"
  shows "\<exists>ss. partition_nodes xs p = Inr ss \<and>
           (\<forall>s \<in> set ss. \<forall>t \<in> set ss.
              length s \<le> length t + (if p \<le> length xs then length xs mod p else 1)) \<and>
           (p \<le> length xs \<longrightarrow> length (last ss) = length (hd ss) + length xs mod p)"
proof -
  define ss where "ss = map (worker_nodes xs p (max 1 (length xs div p))) [0..<p]"
  have r: "partition_nodes xs p = Inr ss"
    unfolding ss_def using assms by (rule partition_nodes_Inr)
  have sz: "map length ss =
           (if p \<le> length xs then spec_slice_sizes (length xs) p
            else replicate (length xs) 1 @ replicate (p - length xs) 0)"
    unfolding ss_def using assms by (rule partition_slice_lengths)
  have ne: "ss \<noteq> []" using assms by (simp add: ss_def)
  have d: "length s \<le> length t + (if p \<le> length xs then length xs mod p else 1)"
    if s: "s \<in> set ss" and t: "t \<in> set ss" for s t
  proof -
    have ls: "length s \<in> set (map length ss)" and lt: "length t \<in> set (map length ss)"
      using s t by auto
    show ?thesis
    proof (cases "p \<le> length xs")
      case True
      then have "map length ss = spec_slice_sizes (length xs) p" using sz by simp
      with ls lt spec_slice_sizes_bounds [OF assms, of _ "length xs"]
      have "length s \<le> length xs div p + length xs mod p" "length xs div p \<le> length t"
        by auto
      then show ?thesis using True by simp
    next
      case False
      then have "map length ss = replicate (length xs) 1 @ replicate (p - length xs) 0"
        using sz by simp
      with ls have "length s \<le> 1" by (auto split: if_splits)
      then show ?thesis using False by simp
    qed
  qed
  have l: "length (last ss) = length (hd ss) + length xs mod p" if le: "p \<le> length xs"
  proof -
    from assms obtain m where p: "p = Suc m" by (cases p) auto
    have m: "map length ss = replicate m (length xs div p) @ [length xs - m * (length xs div p)]"
      using sz le by (simp add: spec_slice_sizes_def p)
    have "Suc m * (length xs div Suc m) + length xs mod Suc m = length xs"
      by (rule mult_div_mod_eq)
    then have e: "length xs - m * (length xs div p) = length xs div p + length xs mod p"
      by (simp add: p)
    have "length (last ss) = last (map length ss)" using ne by (simp add: last_map)
    also have "\<dots> = length xs div p + length xs mod p" using m e by simp
    finally have la: "length (last ss) = length xs div p + length xs mod p" .
    have "length (hd ss) = hd (map length ss)" using ne by (simp add: hd_map)
    also have "\<dots> = length xs div p"
    proof (cases m)
      case 0
      then have "map length ss = [length xs div p + length xs mod p]" using m e by simp
      moreover have "length xs mod p = 0" using 0 p by simp
      ultimately show ?thesis by simp
    next
      case (Suc k)
      then show ?thesis using m by simp
    qed
    finally show ?thesis using la by simp
  qed
  from r d l show ?thesis by blast
qed

text \<open>Witness for C3: ten nodes and three workers, where \<open>N mod p\<close> is one.\<close>

theorem partition_sizes_differ_witness:
  "(0::nat) < 3 \<and>
   map length (projr (partition_nodes [10::nat, 11, 12, 13, 14, 15, 16, 17, 18, 19] 3)) = [3, 3, 4] \<and>
   length [10::nat, 11, 12, 13, 14, 15, 16, 17, 18, 19] mod 3 = 1"
  using partition_sizes_differ [of 3 "[10::nat, 11, 12, 13, 14, 15, 16, 17, 18, 19]"]
  by (simp add: partition_10_3)

text \<open>
  Counterexample for C3 as stated, at eleven pending nodes and three workers: the slice
  sizes are \<open>[3, 3, 5]\<close>, and five exceeds three by two.
\<close>

theorem partition_balance_counterexample:
  "map length (projr (partition_nodes [10::nat, 11, 12, 13, 14, 15, 16, 17, 18, 19, 20] 3)) = [3, 3, 5] \<and>
   \<not> (5::nat) \<le> 3 + 1"
  by (simp add: partition_11_3)

section \<open>Facts about the phases of a step\<close>

lemma aggregate_loop_journal:
  "fst (aggregate_loop ev j s) =
     \<lparr>nodes = nodes j @ ev, draft_nodes = draft_nodes j @ filter (\<lambda>n. parent n = None) ev\<rparr>"
  by (induction ev arbitrary: j s) (auto simp: aggregate_node_def journal_append_def)

lemma journal_aggregate:
  "journal (aggregate k ev a) =
     \<lparr>nodes = nodes (journal a) @ ev,
      draft_nodes = draft_nodes (journal a) @ filter (\<lambda>n. parent n = None) ev\<rparr>"
proof -
  obtain j s where js: "aggregate_loop ev (journal a)
      \<lparr>successful_nodes = 0, buggy_nodes = 0, best_metric = None\<rparr> = (j, s)"
    by (cases "aggregate_loop ev (journal a)
      \<lparr>successful_nodes = 0, buggy_nodes = 0, best_metric = None\<rparr>")
  with aggregate_loop_journal [of ev "journal a"
      "\<lparr>successful_nodes = 0, buggy_nodes = 0, best_metric = None\<rparr>"]
  show ?thesis by (simp add: aggregate_def a_log_def)
qed

subsection \<open>What each phase leaves alone\<close>

lemma journal_a_log [simp]: "journal (a_log l ev a) = journal a"
  by (simp add: a_log_def)

lemma workers_a_log [simp]: "workers (a_log l ev a) = workers a"
  by (simp add: a_log_def)

lemma config_a_log [simp]: "config (a_log l ev a) = config a"
  by (simp add: a_log_def)

lemma nodes_per_worker_a_log [simp]: "nodes_per_worker (a_log l ev a) = nodes_per_worker a"
  by (simp add: a_log_def)

lemma num_workers_a_log [simp]: "num_workers (a_log l ev a) = num_workers a"
  by (simp add: a_log_def)

lemma ray_initialized_a_log [simp]: "ray_initialized (a_log l ev a) = ray_initialized a"
  by (simp add: a_log_def)

lemma logger_a_log [simp]: "logger (a_log l ev a) = logger a @ [(l, ev)]"
  by (simp add: a_log_def)

lemma update_data_preview_frame:
  "update_data_preview a = (r, a') \<Longrightarrow>
   journal a' = journal a \<and> config a' = config a \<and> nodes_per_worker a' = nodes_per_worker a \<and>
   num_workers a' = num_workers a \<and> length (workers a') = length (workers a) \<and>
   ray_initialized a' = ray_initialized a"
  by (auto simp: update_data_preview_def split: option.splits list.splits prod.splits if_splits)

lemma begin_step_frame:
  "begin_step a = (r, a') \<Longrightarrow>
   journal a' = journal a \<and> config a' = config a \<and> nodes_per_worker a' = nodes_per_worker a \<and>
   num_workers a' = num_workers a \<and> length (workers a') = length (workers a) \<and>
   ray_initialized a' = ray_initialized a"
  by (auto simp: begin_step_def Let_def split: if_splits option.splits prod.splits
      dest!: update_data_preview_frame)

lemma propose_frame:
  "propose E k a = (r, a') \<Longrightarrow>
   journal a' = journal a \<and> config a' = config a \<and> nodes_per_worker a' = nodes_per_worker a \<and>
   num_workers a' = num_workers a \<and> length (workers a') = length (workers a) \<and>
   ray_initialized a' = ray_initialized a"
  by (auto simp: propose_def Let_def split: sum.splits if_splits)

lemma propose_up:
  "propose E k a = (Inr ns, a') \<Longrightarrow> workers a \<noteq> [] \<Longrightarrow> ray_initialized a"
  by (auto simp: propose_def split: if_splits)

lemma length_run_slices:
  "length slices = length ws \<Longrightarrow> length (run_slices E slices ws) = length ws"
  by (simp add: run_slices_def)

lemma evaluate_frame:
  "evaluate E k ns a = (r, a') \<Longrightarrow>
   journal a' = journal a \<and> config a' = config a \<and> nodes_per_worker a' = nodes_per_worker a \<and>
   num_workers a' = num_workers a \<and> ray_initialized a' = ray_initialized a"
  by (auto simp: evaluate_def Let_def split: sum.splits if_splits)

lemma journal_save [simp]: "journal (save E k a) = journal a"
  by (simp add: save_def split: option.splits)

lemma pool_save [simp]:
  "workers (save E k a) = workers a" "num_workers (save E k a) = num_workers a"
  by (simp_all add: save_def split: option.splits)

lemma pool_aggregate [simp]:
  "workers (aggregate k ev a) = workers a" "num_workers (aggregate k ev a) = num_workers a"
  by (simp_all add: aggregate_def split: prod.splits)

lemma init_pool:
  "ParallelAgent_init E t c j = Inr a \<Longrightarrow>
   length (workers a) = num_workers a \<and> num_workers a = parallel_num_workers c \<and>
   nodes_per_worker a = parallel_nodes_per_worker c \<and> journal a = j"
  by (auto simp: ParallelAgent_init_def split: if_splits sum.splits)


subsection \<open>Counting the nodes of a step\<close>

lemma ray_get_map_Inr: "ray_get (map Inr vs) = Inr vs"
  by (induction vs) auto

lemma ray_get_InrD: "ray_get rs = Inr vs \<Longrightarrow> rs = map Inr vs"
  by (induction rs arbitrary: vs rule: ray_get.induct) (auto split: sum.splits)

lemma ray_get_Inr_iff: "ray_get rs = Inr vs \<longleftrightarrow> rs = map Inr vs"
  using ray_get_InrD ray_get_map_Inr by blast

lemma ray_get_Inl:
  "Inl e \<in> set rs \<Longrightarrow> \<exists>e'. ray_get rs = Inl e' \<and> Inl e' \<in> set rs"
  by (induction rs rule: ray_get.induct) (auto split: sum.splits)

lemma generate_loop_length:
  "generate_loop E p k ns w = (Inr ns', w') \<Longrightarrow> length ns' = length ns + k"
proof (induction k arbitrary: ns w)
  case 0
  then show ?case by simp
next
  case (Suc k)
  then show ?case by (fastforce split: prod.splits sum.splits)
qed

lemma generate_nodes_length:
  "generate_nodes E p k w = (Inr ns, w') \<Longrightarrow> length ns = k"
  by (auto simp: generate_nodes_def split: prod.splits sum.splits dest: generate_loop_length)

lemma search_and_generate_length:
  "search_and_generate E k w = (Inr ns, w') \<Longrightarrow> length ns = k"
  by (auto simp: search_and_generate_def split: prod.splits sum.splits
      dest: generate_nodes_length)

lemma remote_search_and_generate_length:
  "fst (remote rq (search_and_generate E k) w) = Inr ns \<Longrightarrow> length ns = k"
  using search_and_generate_length [of E k "w\<lparr>served := served w @ [rq]\<rparr>" ns]
  by (cases "search_and_generate E k (w\<lparr>served := served w @ [rq]\<rparr>)") (simp add: remote_def)

lemma length_concat_const:
  "(\<And>x. x \<in> set xss \<Longrightarrow> length x = k) \<Longrightarrow> length (concat xss) = length xss * k"
  by (induction xss) auto

lemma propose_length:
  assumes "propose E k a = (Inr all_nodes, a')"
  shows "length all_nodes = length (workers a) * nodes_per_worker a"
proof -
  let ?K = "nodes_per_worker a"
  let ?rs = "map (remote (SearchAndGenerate ?K) (search_and_generate E ?K)) (workers a)"
  from assms obtain gs where g: "ray_get (map fst ?rs) = Inr gs" and all: "all_nodes = concat gs"
    by (auto simp: propose_def Let_def split: sum.splits if_splits)
  from g have m: "map fst ?rs = map Inr gs" by (simp add: ray_get_Inr_iff)
  then have len: "length gs = length (workers a)"
    by (metis length_map)
  have "length x = ?K" if "x \<in> set gs" for x
  proof -
    from that obtain i where i: "i < length gs" and x: "gs ! i = x"
      by (auto simp: in_set_conv_nth)
    have "map fst ?rs ! i = Inr x" using m i x by simp
    then have "fst (remote (SearchAndGenerate ?K) (search_and_generate E ?K) (workers a ! i)) = Inr x"
      using i len by simp
    then show ?thesis by (rule remote_search_and_generate_length)
  qed
  then have "length (concat gs) = length gs * ?K" by (rule length_concat_const)
  with all len show ?thesis by simp
qed

lemma evaluate_slice_length: "length (fst (evaluate_slice E ns w)) = length ns"
proof (induction ns arbitrary: w)
  case Nil
  show ?case by simp
next
  case (Cons n ns)
  obtain r w1 where r: "remote (ExecuteAndEvaluateNode (node_id n)) (execute_and_evaluate_node E n) w = (r, w1)"
    by (cases "remote (ExecuteAndEvaluateNode (node_id n)) (execute_and_evaluate_node E n) w")
  obtain rs w2 where rs: "evaluate_slice E ns w1 = (rs, w2)"
    by (cases "evaluate_slice E ns w1")
  from Cons [of w1] rs have "length rs = length ns" by simp
  with r rs show ?case by simp
qed

lemma run_slices_length:
  "length slices = length ws \<Longrightarrow>
   length (concat (map fst (run_slices E slices ws))) = length (concat slices)"
  unfolding run_slices_def
  by (induction slices ws rule: list_induct2) (auto simp: evaluate_slice_length)

lemma partition_nodes_InrD:
  assumes "partition_nodes xs p = Inr ss"
  shows "0 < p \<and> length ss = p \<and> concat ss = xs"
proof -
  from assms have p: "0 < p" by (cases p) (auto simp: partition_nodes_empty_pool)
  with assms show ?thesis by (auto simp: partition_nodes_Inr concat_worker_nodes)
qed

lemma evaluate_length:
  assumes "evaluate E k all_nodes a = (Inr ev, a')"
  shows "length ev = length all_nodes \<and> length (workers a') = length (workers a)"
proof -
  from assms obtain slices where
    p: "partition_nodes all_nodes (length (workers a)) = Inr slices" and
    g: "ray_get (concat (map fst (run_slices E slices (workers a)))) = Inr ev" and
    w: "workers a' = map snd (run_slices E slices (workers a))"
    by (auto simp: evaluate_def Let_def split: sum.splits if_splits)
  from p have l: "length slices = length (workers a)" and c: "concat slices = all_nodes"
    using partition_nodes_InrD by blast+
  from g have "concat (map fst (run_slices E slices (workers a))) = map Inr ev"
    by (simp add: ray_get_Inr_iff)
  then have "length ev = length (concat (map fst (run_slices E slices (workers a))))"
    by (metis length_map)
  with l c w show ?thesis by (simp add: run_slices_length length_run_slices)
qed

lemma step_completes:
  assumes "step E a = (None, a')"
  obtains a1 all_nodes a2 ev a3 where
    "begin_step a = (None, a1)"
    "propose E (length (nodes (journal a))) a1 = (Inr all_nodes, a2)"
    "evaluate E (length (nodes (journal a))) all_nodes a2 = (Inr ev, a3)"
    "a' = save E (length (nodes (journal a))) (aggregate (length (nodes (journal a))) ev a3)"
  using assms
  by (auto simp: step_def Let_def split: prod.splits option.splits sum.splits)

lemma sample_begin:
  "begin_step sample_agent = (None, snd (begin_step sample_agent))"
  by code_simp

lemma crashing_propose:
  "propose crashing_env (length (nodes (journal sample_agent))) (snd (begin_step sample_agent)) =
     (Inr [sample_node ''w-'' None, sample_node ''ww-'' None],
      snd (propose crashing_env 0 (snd (begin_step sample_agent))))"
  by code_simp

lemma crashing_partition:
  "partition_nodes [sample_node ''w-'' None, sample_node ''ww-'' None]
     (length (workers (snd (propose crashing_env 0 (snd (begin_step sample_agent)))))) =
   Inr [[sample_node ''w-'' None], [sample_node ''ww-'' None]]"
  by code_simp

lemma crashing_futures:
  "Inl (Raised ''sandbox crashed'') \<in> set (concat (map fst
     (run_slices crashing_env [[sample_node ''w-'' None], [sample_node ''ww-'' None]]
        (workers (snd (propose crashing_env 0 (snd (begin_step sample_agent))))))))"
  by code_simp

lemma crashing_step:
  "fst (step crashing_env sample_agent) = Some (Raised ''sandbox crashed'')"
  by code_simp

lemma unsaved_propose:
  "propose unsaved_env (length (nodes (journal sample_agent))) (snd (begin_step sample_agent)) =
     (Inr [sample_node ''w-'' None, sample_node ''ww-'' None],
      snd (propose unsaved_env 0 (snd (begin_step sample_agent))))"
  by code_simp

lemma unsaved_evaluate:
  "evaluate unsaved_env (length (nodes (journal sample_agent)))
     [sample_node ''w-'' None, sample_node ''ww-'' None]
     (snd (propose unsaved_env 0 (snd (begin_step sample_agent)))) =
   (Inr [scored (sample_node ''w-'' None), scored (sample_node ''ww-'' None)],
    snd (evaluate unsaved_env 0 [sample_node ''w-'' None, sample_node ''ww-'' None]
      (snd (propose unsaved_env 0 (snd (begin_step sample_agent))))))"
  by code_simp

lemma unsaved_save:
  "save_run unsaved_env c j = Some (Raised ''disk full'')"
  by (simp add: unsaved_env_def)

lemma sample_agent_pool: "length (workers sample_agent) = num_workers sample_agent"
  by code_simp

lemma sample_step_completes:
  "step sample_env sample_agent = (None, snd (step sample_env sample_agent))"
  by code_simp

lemma sample_agent_sizes:
  "num_workers sample_agent = 2 \<and> nodes_per_worker sample_agent = 1 \<and>
   nodes (journal sample_agent) = []"
  by code_simp

lemma init_has_data_preview:
  "ParallelAgent_init E t c j = Inr a \<Longrightarrow> data_preview a \<noteq> None"
  by (auto simp: ParallelAgent_init_def split: if_splits sum.splits)

lemma update_data_preview_noop:
  "data_preview a \<noteq> None \<Longrightarrow> update_data_preview a = (None, a)"
  by (auto simp: update_data_preview_def)

lemma init_begin_step:
  assumes "ParallelAgent_init E t c j = Inr a"
  shows "fst (begin_step a) = None \<and> workers (snd (begin_step a)) = workers a \<and>
         data_preview (snd (begin_step a)) = data_preview a"
  using init_has_data_preview [OF assms]
  by (auto simp: begin_step_def Let_def update_data_preview_def a_log_def)


subsection \<open>What the evaluation phase returns\<close>

lemma execute_and_evaluate_node_Inr:
  assumes "execute_and_evaluate_node E n w = (Inr n', w')"
  shows "evaluation E n n'"
  using assms
  unfolding execute_and_evaluate_node_def evaluation_def call_def failed_executing_def
  by (auto split: prod.splits sum.splits)

lemma remote_execute_future:
  "future_of E n (fst (remote rq (execute_and_evaluate_node E n) w))"
proof (cases "execute_and_evaluate_node E n (w\<lparr>served := served w @ [rq]\<rparr>)")
  case (Pair r w')
  then show ?thesis
    by (cases r) (auto simp: future_of_def remote_def dest: execute_and_evaluate_node_Inr)
qed

lemma evaluate_slice_futures:
  "list_all2 (future_of E) ns (fst (evaluate_slice E ns w))"
proof (induction ns arbitrary: w)
  case Nil
  show ?case by simp
next
  case (Cons n ns)
  obtain r w1 where r: "remote (ExecuteAndEvaluateNode (node_id n)) (execute_and_evaluate_node E n) w = (r, w1)"
    by (cases "remote (ExecuteAndEvaluateNode (node_id n)) (execute_and_evaluate_node E n) w")
  obtain rs w2 where rs: "evaluate_slice E ns w1 = (rs, w2)"
    by (cases "evaluate_slice E ns w1")
  have "future_of E n r"
    using remote_execute_future [of E n "ExecuteAndEvaluateNode (node_id n)" w] r by simp
  moreover have "list_all2 (future_of E) ns rs" using Cons [of w1] rs by simp
  ultimately show ?case using r rs by simp
qed

lemma run_slices_futures:
  "length slices = length ws \<Longrightarrow>
   list_all2 (future_of E) (concat slices) (concat (map fst (run_slices E slices ws)))"
  unfolding run_slices_def
  by (induction slices ws rule: list_induct2)
     (auto intro: list_all2_appendI evaluate_slice_futures)

lemma futures_all_Inr:
  "list_all2 (future_of E) ns (map Inr ev) \<Longrightarrow> list_all2 (evaluation E) ns ev"
  by (simp add: list_all2_map2 future_of_def)

lemma evaluate_evaluations:
  assumes "evaluate E k all_nodes a = (Inr ev, a')"
  shows "list_all2 (evaluation E) all_nodes ev"
proof -
  from assms obtain slices where
    p: "partition_nodes all_nodes (length (workers a)) = Inr slices" and
    g: "ray_get (concat (map fst (run_slices E slices (workers a)))) = Inr ev"
    by (auto simp: evaluate_def Let_def split: sum.splits if_splits)
  from p have l: "length slices = length (workers a)" and c: "concat slices = all_nodes"
    using partition_nodes_InrD by blast+
  from g have "concat (map fst (run_slices E slices (workers a))) = map Inr ev"
    by (simp add: ray_get_Inr_iff)
  with run_slices_futures [OF l, of E] c show ?thesis
    by (simp add: futures_all_Inr)
qed

lemma propose_generated:
  assumes "propose E k a = (Inr all_nodes, a')"
  shows "\<exists>gs. all_nodes = concat gs \<and> length gs = length (workers a) \<and>
           (\<forall>g \<in> set gs. length g = nodes_per_worker a) \<and>
           map Inr gs = map (\<lambda>w. fst (remote (SearchAndGenerate (nodes_per_worker a))
                                 (search_and_generate E (nodes_per_worker a)) w)) (workers a)"
proof -
  let ?K = "nodes_per_worker a"
  let ?rs = "map (remote (SearchAndGenerate ?K) (search_and_generate E ?K)) (workers a)"
  from assms obtain gs where g: "ray_get (map fst ?rs) = Inr gs" and all: "all_nodes = concat gs"
    by (auto simp: propose_def Let_def split: sum.splits if_splits)
  from g have m: "map fst ?rs = map Inr gs" by (simp add: ray_get_Inr_iff)
  then have len: "length gs = length (workers a)"
    by (metis length_map)
  have "length x = ?K" if "x \<in> set gs" for x
  proof -
    from that obtain i where i: "i < length gs" and x: "gs ! i = x"
      by (auto simp: in_set_conv_nth)
    have "map fst ?rs ! i = Inr x" using m i x by simp
    then have "fst (remote (SearchAndGenerate ?K) (search_and_generate E ?K) (workers a ! i)) = Inr x"
      using i len by simp
    then show ?thesis by (rule remote_search_and_generate_length)
  qed
  moreover have "map Inr gs = map (\<lambda>w. fst (remote (SearchAndGenerate ?K)
      (search_and_generate E ?K) w)) (workers a)"
    using m by (simp add: comp_def)
  ultimately show ?thesis using all len by blast
qed

lemma sample_step_nodes:
  "nodes (journal (snd (step sample_env sample_agent))) =
     [scored (sample_node ''w-'' None), scored (sample_node ''ww-'' None)]"
  by code_simp

subsection \<open>Cleanup after a shutdown\<close>




section \<open>The worker\<close>

text \<open>
  C5. When the sandbox raises, or the sandbox returns and the metric derivation raises,
  \<open>execute_and_evaluate_node\<close> returns that very exception and no node (so no node with
  \<open>is_buggy = true\<close>), and the worker's log ends with the error entry that names the worker
  and the node.
\<close>

theorem evaluate_failure_reraised:
  assumes "interpreter_run E (w_log INFO (Executing (actor_id w) (node_id n)) w) (code n) = (Inl e, s)
           \<or> (\<exists>r s0. interpreter_run E (w_log INFO (Executing (actor_id w) (node_id n)) w) (code n) = (Inr r, s0)
                \<and> parse_exec_result E (w_log INFO (Executing (actor_id w) (node_id n)) w\<lparr>opaque := s0\<rparr>)
                      (absorb_exec_result n r) r = (Inl e, s))"
  shows "execute_and_evaluate_node E n w =
           (Inl e, w\<lparr>w_logger := w_logger w @
                       [(INFO, Executing (actor_id w) (node_id n)),
                        (ERROR, FailedExecuting (actor_id w) (node_id n) (str e))],
                     opaque := s\<rparr>)"
  using assms
  by (auto simp: execute_and_evaluate_node_def call_def failed_executing_def w_log_def)

text \<open>Witness for C5: a sandbox that crashes, and a metric derivation that raises.\<close>

theorem evaluate_failure_reraised_witness:
  "execute_and_evaluate_node crashing_env (sample_node ''n1'' None) sample_worker =
     (Inl (Raised ''sandbox crashed''),
      sample_worker\<lparr>w_logger := [(INFO, Executing ''w'' ''n1''),
                                 (ERROR, FailedExecuting ''w'' ''n1'' ''sandbox crashed'')]\<rparr>)
   \<and> execute_and_evaluate_node unscored_env (sample_node ''n1'' None) sample_worker =
     (Inl (Raised ''no metric''),
      sample_worker\<lparr>w_logger := [(INFO, Executing ''w'' ''n1''),
                                 (ERROR, FailedExecuting ''w'' ''n1'' ''no metric'')]\<rparr>)"
  using evaluate_failure_reraised [of crashing_env sample_worker "sample_node ''n1'' None"
          "Raised ''sandbox crashed''" 0]
        evaluate_failure_reraised [of unscored_env sample_worker "sample_node ''n1'' None"
          "Raised ''no metric''" 0]
  by (simp add: crashing_env_def unscored_env_def sample_env_def sample_worker_def new_worker_def
      sample_node_def w_log_def absorb_exec_result_def)

section \<open>The step\<close>

text \<open>
  C4. Let a step get past the propose phase with the pending nodes partitioned into
  slices. If any evaluation future of the step is a failure, then \<open>step\<close> raises one of
  the failures of its evaluations and the journal after the step is the journal before
  it: no node of the step is appended.
\<close>

theorem failed_evaluation_aborts_step:
  assumes b: "begin_step a = (None, a1)"
    and p: "propose E (length (nodes (journal a))) a1 = (Inr all_nodes, a2)"
    and s: "partition_nodes all_nodes (length (workers a2)) = Inr slices"
    and f: "Inl e \<in> set (concat (map fst (run_slices E slices (workers a2))))"
  shows "\<exists>e'. fst (step E a) = Some e' \<and>
              Inl e' \<in> set (concat (map fst (run_slices E slices (workers a2)))) \<and>
              journal (snd (step E a)) = journal a"
proof -
  let ?k = "length (nodes (journal a))"
  from ray_get_Inl [OF f] obtain e' where
    g: "ray_get (concat (map fst (run_slices E slices (workers a2)))) = Inl e'" and
    m: "Inl e' \<in> set (concat (map fst (run_slices E slices (workers a2))))"
    by blast
  obtain r a3 where ev: "evaluate E ?k all_nodes a2 = (r, a3)"
    by (cases "evaluate E ?k all_nodes a2")
  from s have "workers a2 \<noteq> []"
    using partition_nodes_InrD by fastforce
  then have "workers a1 \<noteq> []"
    using propose_frame [OF p] by auto
  then have "ray_initialized a2"
    using propose_up [OF p] propose_frame [OF p] by simp
  with ev s g have r: "r = Inl e'"
    by (auto simp: evaluate_def Let_def split: sum.splits)
  have st: "step E a = (Some e', a3)"
    using b p ev r by (simp add: step_def)
  have "journal a3 = journal a"
    using begin_step_frame [OF b] propose_frame [OF p] evaluate_frame [OF ev] by simp
  with st m show ?thesis by simp
qed

text \<open>Witness for C4: the pool of two workers whose sandbox crashes.\<close>

theorem failed_evaluation_aborts_step_witness:
  "fst (step crashing_env sample_agent) = Some (Raised ''sandbox crashed'') \<and>
   journal (snd (step crashing_env sample_agent)) = journal sample_agent"
  using failed_evaluation_aborts_step
    [OF sample_begin crashing_propose crashing_partition crashing_futures]
  by (simp add: crashing_step)

text \<open>
  C6. If a step gets through evaluation and \<open>save_run\<close> then raises, \<open>step\<close> still returns
  normally; the scheduler it leaves is the aggregated one with one more log entry, the
  error of the failed save, and its journal holds the nodes evaluated in the step.
\<close>

theorem persistence_failure_logged:
  assumes b: "begin_step a = (None, a1)"
    and p: "propose E (length (nodes (journal a))) a1 = (Inr all_nodes, a2)"
    and e: "evaluate E (length (nodes (journal a))) all_nodes a2 = (Inr ev, a3)"
    and s: "save_run E (config a3) (journal (aggregate (length (nodes (journal a))) ev a3)) = Some err"
  shows "step E a =
           (None, a_log ERROR (FailedSave (length (nodes (journal a))) (str err))
                    (aggregate (length (nodes (journal a))) ev a3)) \<and>
         nodes (journal (snd (step E a))) = nodes (journal a) @ ev"
proof -
  let ?k = "length (nodes (journal a))"
  have c: "config (aggregate ?k ev a3) = config a3"
    by (simp add: aggregate_def split: prod.splits)
  have st: "step E a = (None, a_log ERROR (FailedSave ?k (str err)) (aggregate ?k ev a3))"
    using b p e s by (simp add: step_def save_def c Let_def)
  have "journal a3 = journal a"
    using begin_step_frame [OF b] propose_frame [OF p] evaluate_frame [OF e] by simp
  with st show ?thesis by (simp add: journal_aggregate)
qed

text \<open>Witness for C6: the pool of two workers whose checkpoint cannot be written.\<close>

theorem persistence_failure_logged_witness:
  "fst (step unsaved_env sample_agent) = None \<and>
   nodes (journal (snd (step unsaved_env sample_agent))) =
     [scored (sample_node ''w-'' None), scored (sample_node ''ww-'' None)] \<and>
   last (logger (snd (step unsaved_env sample_agent))) = (ERROR, FailedSave 0 ''disk full'')"
proof -
  have n: "nodes (journal sample_agent) = []" by code_simp
  note r = persistence_failure_logged
    [OF sample_begin unsaved_propose unsaved_evaluate unsaved_save]
  from r have st: "fst (step unsaved_env sample_agent) = None" by simp
  from r have lg: "last (logger (snd (step unsaved_env sample_agent))) =
      (ERROR, FailedSave 0 ''disk full'')" by (simp add: n)
  from r have "nodes (journal (snd (step unsaved_env sample_agent))) =
      nodes (journal sample_agent) @
      [scored (sample_node ''w-'' None), scored (sample_node ''ww-'' None)]"
    by (rule conjunct2)
  then have nd: "nodes (journal (snd (step unsaved_env sample_agent))) =
      [scored (sample_node ''w-'' None), scored (sample_node ''ww-'' None)]"
    by (simp add: n)
  from st lg nd show ?thesis by simp
qed

text \<open>
  C7. Aggregation appends every evaluated node to the main collection, and the nodes
  without a parent, and only those, to the draft list, both in result order.
\<close>

theorem aggregate_appends:
  "nodes (journal (aggregate k ev a)) = nodes (journal a) @ ev \<and>
   draft_nodes (journal (aggregate k ev a)) =
     draft_nodes (journal a) @ filter (\<lambda>n. parent n = None) ev"
  by (simp add: journal_aggregate)

text \<open>
  C10. For a scheduler whose pool has \<open>num_workers\<close> members, as the constructor builds
  it, a step that returns without raising has got \<open>nodes_per_worker\<close> nodes from every
  worker of the pool, has evaluated every one of them, in pool order, and has appended
  exactly these evaluations to the journal: the journal is longer by
  \<open>num_workers * nodes_per_worker\<close> nodes, and the pool still has \<open>num_workers\<close> members
  for the next step.
\<close>

theorem step_appends_all:
  assumes "length (workers a) = num_workers a" and "step E a = (None, a')"
  shows "\<exists>gs ev.
           length gs = num_workers a \<and> (\<forall>g \<in> set gs. length g = nodes_per_worker a) \<and>
           map Inr gs =
             map (\<lambda>w. fst (remote (SearchAndGenerate (nodes_per_worker a))
                        (search_and_generate E (nodes_per_worker a)) w))
               (workers (snd (begin_step a))) \<and>
           list_all2 (evaluation E) (concat gs) ev \<and>
           nodes (journal a') = nodes (journal a) @ ev \<and>
           length (nodes (journal a')) =
             length (nodes (journal a)) + num_workers a * nodes_per_worker a \<and>
           length (workers a') = num_workers a'"
proof -
  from assms(2) obtain a1 all_nodes a2 ev a3 where
    b: "begin_step a = (None, a1)" and
    p: "propose E (length (nodes (journal a))) a1 = (Inr all_nodes, a2)" and
    e: "evaluate E (length (nodes (journal a))) all_nodes a2 = (Inr ev, a3)" and
    a': "a' = save E (length (nodes (journal a))) (aggregate (length (nodes (journal a))) ev a3)"
    by (rule step_completes)
  from begin_step_frame [OF b] have a1: "journal a1 = journal a"
    "nodes_per_worker a1 = nodes_per_worker a" "length (workers a1) = length (workers a)"
    "num_workers a1 = num_workers a"
    by simp_all
  from propose_frame [OF p] have a2: "journal a2 = journal a1"
    "length (workers a2) = length (workers a1)" "num_workers a2 = num_workers a1"
    by simp_all
  from evaluate_frame [OF e] have a3: "journal a3 = journal a2" "num_workers a3 = num_workers a2"
    by simp_all
  from propose_generated [OF p] obtain gs where
    gs: "all_nodes = concat gs" "length gs = length (workers a1)"
      "\<forall>g \<in> set gs. length g = nodes_per_worker a1"
      "map Inr gs = map (\<lambda>w. fst (remote (SearchAndGenerate (nodes_per_worker a1))
                                 (search_and_generate E (nodes_per_worker a1)) w)) (workers a1)"
    by blast
  from evaluate_length [OF e] have l: "length ev = length all_nodes"
    "length (workers a3) = length (workers a2)"
    by simp_all
  have "length all_nodes = num_workers a * nodes_per_worker a"
    using propose_length [OF p] a1 assms(1) by simp
  with l have n: "length ev = num_workers a * nodes_per_worker a" by simp
  have ap: "nodes (journal a') = nodes (journal a) @ ev"
    unfolding a' using a1 a2 a3 by (simp add: journal_aggregate)
  have ev: "list_all2 (evaluation E) (concat gs) ev"
    using evaluate_evaluations [OF e] gs(1) by simp
  have w: "length (workers a') = num_workers a'"
    unfolding a' using l a1 a2 a3 assms(1) by simp
  have b1: "snd (begin_step a) = a1" using b by simp
  show ?thesis
    using gs(2,3,4) ev ap n w a1 assms(1) unfolding b1
    by (intro exI [of _ gs] exI [of _ ev]) simp
qed

text \<open>
  Witness for C10: the first step of the pool of two workers, one node per worker; the
  two nodes appended are the scored ones.
\<close>

theorem step_appends_all_witness:
  "length (workers sample_agent) = num_workers sample_agent \<and>
   fst (step sample_env sample_agent) = None \<and>
   nodes (journal sample_agent) = [] \<and>
   nodes (journal (snd (step sample_env sample_agent))) =
     [scored (sample_node ''w-'' None), scored (sample_node ''ww-'' None)] \<and>
   length (nodes (journal (snd (step sample_env sample_agent)))) = 2"
proof -
  have f: "fst (step sample_env sample_agent) = None" by code_simp
  from step_appends_all [OF sample_agent_pool sample_step_completes]
  have "length (nodes (journal (snd (step sample_env sample_agent)))) =
      length (nodes (journal sample_agent)) +
      num_workers sample_agent * nodes_per_worker sample_agent"
    by blast
  then have "length (nodes (journal (snd (step sample_env sample_agent)))) = 2"
    using sample_agent_sizes by simp
  with f sample_agent_pool sample_agent_sizes sample_step_nodes show ?thesis by simp
qed

section \<open>The data preview\<close>

text \<open>
  C8. The scheduler built by the constructor for two workers has \<open>data_preview\<close> assigned
  (to Python's \<open>None\<close>), so \<open>update_data_preview\<close> changes nothing: the first step on the
  empty journal logs that the preview was updated, but no worker ever serves
  \<open>get_data_preview\<close>.
\<close>

theorem first_step_fetches_no_preview:
  "ParallelAgent_init sample_env ''task'' sample_cfg empty_journal = Inr sample_agent \<and>
   nodes (journal sample_agent) = [] \<and>
   data_preview sample_agent = Some None \<and>
   update_data_preview sample_agent = (None, sample_agent) \<and>
   fst (step sample_env sample_agent) = None \<and>
   logger (snd (begin_step sample_agent)) = [(INFO, StartingStep 0), (INFO, UpdatedDataPreview)] \<and>
   map served (workers (snd (step sample_env sample_agent))) =
     [[SearchAndGenerate 1, ExecuteAndEvaluateNode ''w-''],
      [SearchAndGenerate 1, ExecuteAndEvaluateNode ''ww-'']]"
  by code_simp

section \<open>Cleanup\<close>




end
